theory Spec2Isabelle
  imports Main "HOL-Library.Sublist"
begin

section \<open>Text: the fragment of Python's \<open>str\<close> that the script uses\<close>

text \<open>
  A Python \<open>str\<close> is modelled as a \<open>string\<close>, one \<open>char\<close> per code point, so the
  model covers the code points U+0000 to U+00FF. The script opens its files in text mode:
  the content of a file is here the text that \<open>f.read()\<close> returns (decoded, every line end
  read as the newline character), and the text written is the text stored.
\<close>

definition TAB :: char where
  "TAB = CHR 0x09"

definition NL :: char where
  "NL = CHR 0x0A"

text \<open>\<open>str.isspace\<close> on one character, for the code points below 256.\<close>

definition isspace :: "char \<Rightarrow> bool" where
  "isspace c =
     (let n = (of_char c :: nat)
      in (9 \<le> n \<and> n \<le> 13) \<or> (28 \<le> n \<and> n \<le> 32) \<or> n = 133 \<or> n = 160)"

text \<open>
  The class \<open>\w\<close> of \<open>re\<close> on a \<open>str\<close> pattern: the underscore and every
  alphanumeric character, for the code points below 256.
\<close>

definition isword :: "char \<Rightarrow> bool" where
  "isword c =
     (let n = (of_char c :: nat)
      in (48 \<le> n \<and> n \<le> 57) \<or> (65 \<le> n \<and> n \<le> 90) \<or> n = 95 \<or> (97 \<le> n \<and> n \<le> 122)
         \<or> n = 170 \<or> n = 178 \<or> n = 179 \<or> n = 181 \<or> n = 185 \<or> n = 186
         \<or> (188 \<le> n \<and> n \<le> 190) \<or> (192 \<le> n \<and> n \<le> 214) \<or> (216 \<le> n \<and> n \<le> 246)
         \<or> 248 \<le> n)"

text \<open>\<open>s.strip()\<close>: whitespace removed at both ends.\<close>

definition strip :: "string \<Rightarrow> string" where
  "strip s = rev (dropWhile isspace (rev (dropWhile isspace s)))"

text \<open>\<open>s.startswith(p)\<close>.\<close>

definition startswith :: "string \<Rightarrow> string \<Rightarrow> bool" where
  "startswith s p = prefix p s"

text \<open>
  \<open>s.split(sep)\<close> for a separator of one character: the pieces between the
  separators, the empty ones too; never the empty list.
\<close>

fun split_str :: "char \<Rightarrow> string \<Rightarrow> string list" where
  "split_str sep [] = [[]]"
| "split_str sep (c # cs) =
     (if c = sep then [] # split_str sep cs
      else (case split_str sep cs of
              [] \<Rightarrow> [[c]]
            | w # ws \<Rightarrow> (c # w) # ws))"

text \<open>\<open>sep.join(xs)\<close>.\<close>

fun join_str :: "string \<Rightarrow> string list \<Rightarrow> string" where
  "join_str sep [] = []"
| "join_str sep [x] = x"
| "join_str sep (x # y # ys) = x @ sep @ join_str sep (y # ys)"

text \<open>\<open>sub in s\<close> on strings: \<open>sub\<close> occurs in \<open>s\<close> at some position.\<close>

fun str_contains :: "string \<Rightarrow> string \<Rightarrow> bool" where
  "str_contains sub [] = (sub = [])"
| "str_contains sub (c # cs) = (prefix sub (c # cs) \<or> str_contains sub cs)"

section \<open>\<open>parse_headers\<close>\<close>

text \<open>
  \<open>re.match(r"#(\w+)=(.+)", line)\<close> and its two groups. The match is anchored at the
  start of the line. The group \<open>\w+\<close> is the longest run of word characters after the
  \<open>#\<close>: the character \<open>=\<close> is not a word character, so no shorter run can be followed
  by it. The group \<open>.+\<close> is greedy and \<open>.\<close> matches every character but the newline.
\<close>

definition match_key_value :: "string \<Rightarrow> (string \<times> string) option" where
  "match_key_value line =
     (case line of
        [] \<Rightarrow> None
      | h # rest \<Rightarrow>
          (let key = takeWhile isword rest;
               after = dropWhile isword rest
           in (case after of
                 [] \<Rightarrow> None
               | e # more \<Rightarrow>
                   (let val = takeWhile (\<lambda>x. x \<noteq> NL) more
                    in if h = CHR ''#'' \<and> key \<noteq> [] \<and> e = CHR ''='' \<and> val \<noteq> []
                       then Some (key, val) else None))))"

record metadata =
  version :: string
  templates :: "string list"

text \<open>The body of the loop of \<open>parse_headers\<close>, on one line.\<close>

definition parse_line :: "string \<Rightarrow> metadata \<Rightarrow> metadata" where
  "parse_line line md =
     (if startswith line ''#'' then
        (case match_key_value line of
           Some (key, val) \<Rightarrow>
             (if key = ''version'' then md\<lparr>version := val\<rparr>
              else if key = ''template'' then md\<lparr>templates := templates md @ [val]\<rparr>
              else md)
         | None \<Rightarrow> md)
      else md)"

definition parse_headers :: "string \<Rightarrow> metadata" where
  "parse_headers content =
     fold parse_line (split_str NL content) \<lparr>version = ''v1.1.0'', templates = []\<rparr>"

section \<open>\<open>update_tsv_file\<close>\<close>

text \<open>
  The search for the header row: \<open>for i, line in enumerate(lines)\<close> with its
  \<open>break\<close>; \<open>None\<close> when the loop ends with \<open>header_line\<close> still \<open>None\<close>.
\<close>

fun find_header_row :: "nat \<Rightarrow> string list \<Rightarrow> (nat \<times> string) option" where
  "find_header_row i [] = None"
| "find_header_row i (line # lines) =
     (if strip line \<noteq> [] \<and> \<not> startswith line ''#'' then Some (i, line)
      else find_header_row (Suc i) lines)"

definition locate_header_row :: "string list \<Rightarrow> (nat \<times> string) option" where
  "locate_header_row lines = find_header_row 0 lines"

text \<open>The metadata columns appended to the columns of the header row.\<close>

definition build_columns :: "string list \<Rightarrow> metadata \<Rightarrow> string list" where
  "build_columns columns md =
     (let has_version = list_ex (str_contains ''comment[sdrf version]'') columns;
          has_template = list_ex (str_contains ''comment[sdrf template]'') columns;
          has_tool = list_ex (str_contains ''comment[sdrf annotation tool]'') columns;
          new_columns = columns;
          new_columns =
            (if \<not> has_version then new_columns @ [''comment[sdrf version]'']
             else new_columns);
          new_columns =
            (if \<not> has_template then
               (if templates md \<noteq> [] then
                  fold (\<lambda>_ acc. acc @ [''comment[sdrf template]'']) (templates md) new_columns
                else new_columns @ [''comment[sdrf template]''])
             else new_columns);
          new_columns =
            (if \<not> has_tool then new_columns @ [''comment[sdrf annotation tool]'']
             else new_columns)
      in new_columns)"

text \<open>The text written to the file: the new header line, then the lines kept.\<close>

definition write_lines :: "string \<Rightarrow> string list \<Rightarrow> string" where
  "write_lines new_header_line data_lines =
     (new_header_line @ [NL])
     @ concat (map (\<lambda>line. line @ [NL]) (filter (\<lambda>line. strip line \<noteq> []) data_lines))"

datatype error = NoHeaderRow

text \<open>
  The content transformation of \<open>update_tsv_file\<close>: from the text read to the text
  written, or \<open>NoHeaderRow\<close> where the function prints its error and returns \<open>False\<close>.
\<close>

definition rewrite :: "string \<Rightarrow> error + string" where
  "rewrite content =
     (let md = parse_headers content;
          lines = split_str NL content
      in (case locate_header_row lines of
            None \<Rightarrow> Inl NoHeaderRow
          | Some (header_idx, header_line) \<Rightarrow>
              (let columns = split_str TAB header_line;
                   new_columns = build_columns columns md;
                   new_header_line = join_str [TAB] new_columns;
                   data_lines = drop (header_idx + 1) lines
               in Inr (write_lines new_header_line data_lines))))"

text \<open>
  The files, by path, the lines printed, and the paths opened for writing. Opening a
  path that does not exist for reading raises \<open>FileNotFoundError\<close>. The argument
  \<open>template_name\<close> is not used by the function.
\<close>

record world =
  files :: "string \<rightharpoonup> string"
  stdout :: "string list"
  opened_w :: "string list"

datatype py_error = FileNotFoundError

definition update_tsv_file :: "world \<Rightarrow> string \<Rightarrow> string \<Rightarrow> py_error + (bool \<times> world)" where
  "update_tsv_file w tsv_path template_name =
     (case files w tsv_path of
        None \<Rightarrow> Inl FileNotFoundError
      | Some content \<Rightarrow>
          (case rewrite content of
             Inl NoHeaderRow \<Rightarrow>
               Inr (False,
                    w\<lparr>stdout := stdout w @ [''  ERROR: No header row found in '' @ tsv_path]\<rparr>)
           | Inr out \<Rightarrow>
               Inr (True,
                    w\<lparr>files := (files w)(tsv_path \<mapsto> out),
                      opened_w := opened_w w @ [tsv_path]\<rparr>)))"

section \<open>Reference inputs and spec-level definitions\<close>

text \<open>The scenario of the specification: two header comments, the header row, one data
  row and a trailing blank line; and the output the specification expects for it.\<close>

definition scenario_input :: string where
  "scenario_input =
     ''#version=1.0.0'' @ [NL] @ ''#template=plants'' @ [NL]
     @ ''source name'' @ [TAB] @ ''characteristics[organism]'' @ [NL]
     @ ''sample1'' @ [TAB] @ ''Arabidopsis'' @ [NL] @ [NL]"

definition scenario_output :: string where
  "scenario_output =
     ''source name'' @ [TAB] @ ''characteristics[organism]'' @ [TAB]
     @ ''comment[sdrf version]'' @ [TAB] @ ''comment[sdrf template]'' @ [TAB]
     @ ''comment[sdrf annotation tool]'' @ [NL]
     @ ''sample1'' @ [TAB] @ ''Arabidopsis'' @ [NL]"

text \<open>
  The header-row search as the specification words it (``the first line that, after no
  trimming, is non-empty and does not start with \<open>#\<close>''), to be compared with
  \<open>locate_header_row\<close>, which is the search of the source.
\<close>

fun spec_locateHeaderRow_from :: "nat \<Rightarrow> string list \<Rightarrow> (nat \<times> string) option" where
  "spec_locateHeaderRow_from i [] = None"
| "spec_locateHeaderRow_from i (line # lines) =
     (if line \<noteq> [] \<and> \<not> startswith line ''#'' then Some (i, line)
      else spec_locateHeaderRow_from (Suc i) lines)"

definition spec_locateHeaderRow :: "string list \<Rightarrow> (nat \<times> string) option" where
  "spec_locateHeaderRow lines = spec_locateHeaderRow_from 0 lines"

text \<open>The columns that \<open>build_columns\<close> puts after the existing ones.\<close>

definition appended_columns :: "string list \<Rightarrow> metadata \<Rightarrow> string list" where
  "appended_columns columns md = drop (length columns) (build_columns columns md)"

section \<open>Lemmas on splitting, joining and stripping\<close>

lemma split_str_not_Nil [simp]: "split_str sep s \<noteq> []"
  by (induction s) (auto split: list.splits)

lemma split_str_no_sep: "x \<in> set (split_str sep s) \<Longrightarrow> sep \<notin> set x"
  by (induction s arbitrary: x) (auto split: list.splits if_splits)

lemma split_str_plain: "sep \<notin> set x \<Longrightarrow> split_str sep x = [x]"
  by (induction x) auto

lemma split_str_append: "sep \<notin> set x \<Longrightarrow> split_str sep (x @ sep # s) = x # split_str sep s"
  by (induction x) auto

lemma join_split_str: "join_str [sep] (split_str sep s) = s"
proof (induction s)
  case Nil
  show ?case by simp
next
  case (Cons c cs)
  show ?case
  proof (cases "c = sep")
    case True
    obtain w ws where "split_str sep cs = w # ws"
      using split_str_not_Nil [of sep cs] by (cases "split_str sep cs") auto
    with Cons True show ?thesis by simp
  next
    case False
    obtain w ws where "split_str sep cs = w # ws"
      using split_str_not_Nil [of sep cs] by (cases "split_str sep cs") auto
    with Cons False show ?thesis by (cases ws) auto
  qed
qed

lemma join_str_Cons: "ys \<noteq> [] \<Longrightarrow> join_str sep (x # ys) = x @ sep @ join_str sep ys"
  by (cases ys) auto

lemma split_join_str:
  "xs \<noteq> [] \<Longrightarrow> \<forall>x\<in>set xs. sep \<notin> set x \<Longrightarrow> split_str sep (join_str [sep] xs) = xs"
proof (induction xs)
  case Nil
  then show ?case by simp
next
  case (Cons x xs)
  show ?case
  proof (cases xs)
    case Nil
    with Cons.prems show ?thesis by (simp add: split_str_plain)
  next
    case (Cons y ys)
    with Cons.prems Cons.IH show ?thesis by (simp add: split_str_append)
  qed
qed

lemma join_str_Cons_concat: "join_str sep (x # ys) = x @ concat (map (\<lambda>y. sep @ y) ys)"
  by (induction ys arbitrary: x) (auto simp: join_str_Cons)

lemma join_str_append:
  "xs \<noteq> [] \<Longrightarrow> join_str sep (xs @ ys) = join_str sep xs @ concat (map (\<lambda>y. sep @ y) ys)"
  by (cases xs) (auto simp: join_str_Cons_concat)

lemma split_str_written:
  "\<forall>l\<in>set ls. sep \<notin> set l \<Longrightarrow> split_str sep (concat (map (\<lambda>l. l @ [sep]) ls)) = ls @ [[]]"
  by (induction ls) (auto simp: split_str_append)

lemma dropWhile_keeps: "(\<exists>c\<in>set (dropWhile P s). \<not> P c) \<longleftrightarrow> (\<exists>c\<in>set s. \<not> P c)"
  by (induction s) auto

lemma strip_nonempty_iff: "strip s \<noteq> [] \<longleftrightarrow> (\<exists>c\<in>set s. \<not> isspace c)"
proof -
  have "strip s \<noteq> [] \<longleftrightarrow> (\<exists>c\<in>set (dropWhile isspace s). \<not> isspace c)"
    by (simp add: strip_def)
  then show ?thesis by (simp add: dropWhile_keeps)
qed

lemma str_contains_iff_sublist: "str_contains sub s \<longleftrightarrow> sublist sub s"
  by (induction s) (auto simp: sublist_Cons_right)

section \<open>Lemmas on the operations\<close>

lemmas eval_defs =
  rewrite_def parse_headers_def locate_header_row_def build_columns_def write_lines_def
  parse_line_def match_key_value_def startswith_def strip_def isspace_def isword_def
  TAB_def NL_def

lemma find_header_row_None:
  "find_header_row i lines = None \<longleftrightarrow> (\<forall>l\<in>set lines. \<not> (strip l \<noteq> [] \<and> \<not> startswith l ''#''))"
  by (induction lines arbitrary: i) auto

lemma find_header_row_Some:
  "find_header_row i lines = Some (k, l) \<longleftrightarrow>
     (\<exists>pre post. lines = pre @ l # post \<and> k = i + length pre
        \<and> strip l \<noteq> [] \<and> \<not> startswith l ''#''
        \<and> (\<forall>x\<in>set pre. \<not> (strip x \<noteq> [] \<and> \<not> startswith x ''#'')))"
proof (induction lines arbitrary: i)
  case Nil
  show ?case by simp
next
  case (Cons a lines)
  show ?case
  proof (cases "strip a \<noteq> [] \<and> \<not> startswith a ''#''")
    case True
    then have "find_header_row i (a # lines) = Some (k, l) \<longleftrightarrow> (k = i \<and> l = a)"
      by auto
    also have "\<dots> \<longleftrightarrow> (\<exists>pre post. a # lines = pre @ l # post \<and> k = i + length pre
        \<and> strip l \<noteq> [] \<and> \<not> startswith l ''#''
        \<and> (\<forall>x\<in>set pre. \<not> (strip x \<noteq> [] \<and> \<not> startswith x ''#'')))" (is "?L \<longleftrightarrow> ?R")
    proof
      assume ?L
      with True have "a # lines = [] @ l # lines \<and> k = i + length ([]::string list)
        \<and> strip l \<noteq> [] \<and> \<not> startswith l ''#''
        \<and> (\<forall>x\<in>set ([]::string list). \<not> (strip x \<noteq> [] \<and> \<not> startswith x ''#''))"
        by simp
      then show ?R by blast
    next
      assume ?R
      then obtain pre post where h: "a # lines = pre @ l # post" "k = i + length pre"
        "\<forall>x\<in>set pre. \<not> (strip x \<noteq> [] \<and> \<not> startswith x ''#'')" by blast
      from h(1) h(3) True have "pre = []" by (cases pre) auto
      with h show ?L by simp
    qed
    finally show ?thesis .
  next
    case False
    then have "find_header_row i (a # lines) = Some (k, l) \<longleftrightarrow>
        find_header_row (Suc i) lines = Some (k, l)"
      by auto
    also have "\<dots> \<longleftrightarrow> (\<exists>pre post. lines = pre @ l # post \<and> k = Suc i + length pre
        \<and> strip l \<noteq> [] \<and> \<not> startswith l ''#''
        \<and> (\<forall>x\<in>set pre. \<not> (strip x \<noteq> [] \<and> \<not> startswith x ''#'')))"
      by (rule Cons.IH)
    also have "\<dots> \<longleftrightarrow> (\<exists>pre post. a # lines = pre @ l # post \<and> k = i + length pre
        \<and> strip l \<noteq> [] \<and> \<not> startswith l ''#''
        \<and> (\<forall>x\<in>set pre. \<not> (strip x \<noteq> [] \<and> \<not> startswith x ''#'')))" (is "?L \<longleftrightarrow> ?R")
    proof
      assume ?L
      then obtain pre post where h: "lines = pre @ l # post" "k = Suc i + length pre"
        "strip l \<noteq> [] \<and> \<not> startswith l ''#''"
        "\<forall>x\<in>set pre. \<not> (strip x \<noteq> [] \<and> \<not> startswith x ''#'')" by blast
      with False have "a # lines = (a # pre) @ l # post \<and> k = i + length (a # pre)
        \<and> strip l \<noteq> [] \<and> \<not> startswith l ''#''
        \<and> (\<forall>x\<in>set (a # pre). \<not> (strip x \<noteq> [] \<and> \<not> startswith x ''#''))"
        by simp
      then show ?R by blast
    next
      assume ?R
      then obtain pre post where h: "a # lines = pre @ l # post" "k = i + length pre"
        "strip l \<noteq> [] \<and> \<not> startswith l ''#''"
        "\<forall>x\<in>set pre. \<not> (strip x \<noteq> [] \<and> \<not> startswith x ''#'')" by blast
      from h(1) h(3) False obtain pre' where p: "pre = a # pre'" by (cases pre) auto
      with h have "lines = pre' @ l # post \<and> k = Suc i + length pre'
        \<and> strip l \<noteq> [] \<and> \<not> startswith l ''#''
        \<and> (\<forall>x\<in>set pre'. \<not> (strip x \<noteq> [] \<and> \<not> startswith x ''#''))" by simp
      then show ?L by blast
    qed
    finally show ?thesis .
  qed
qed

lemma fold_append_const: "fold (\<lambda>_ acc. acc @ [t]) xs acc0 = acc0 @ replicate (length xs) t"
  by (induction xs arbitrary: acc0) (auto simp: replicate_append_same)

lemma build_columns_eq:
  "build_columns columns md =
     columns
     @ (if list_ex (str_contains ''comment[sdrf version]'') columns then []
        else [''comment[sdrf version]''])
     @ (if list_ex (str_contains ''comment[sdrf template]'') columns then []
        else replicate (if templates md = [] then 1 else length (templates md))
               ''comment[sdrf template]'')
     @ (if list_ex (str_contains ''comment[sdrf annotation tool]'') columns then []
        else [''comment[sdrf annotation tool]''])"
  by (simp add: build_columns_def Let_def fold_append_const)

lemma match_key_value_Some:
  assumes "match_key_value line = Some (key, val)"
  shows "\<exists>more. line = CHR ''#'' # key @ CHR ''='' # more
           \<and> val = takeWhile (\<lambda>x. x \<noteq> NL) more \<and> val \<noteq> [] \<and> key \<noteq> []"
proof (cases line)
  case Nil
  with assms show ?thesis by (simp add: match_key_value_def)
next
  case (Cons h rest)
  show ?thesis
  proof (cases "dropWhile isword rest")
    case Nil
    with assms Cons show ?thesis by (simp add: match_key_value_def)
  next
    case (Cons e more)
    have c: "h = CHR ''#'' \<and> takeWhile isword rest \<noteq> [] \<and> e = CHR ''=''
               \<and> takeWhile (\<lambda>x. x \<noteq> NL) more \<noteq> []"
      using assms \<open>line = h # rest\<close> Cons
      by (simp add: match_key_value_def Let_def split: if_splits)
    then have kv: "key = takeWhile isword rest" "val = takeWhile (\<lambda>x. x \<noteq> NL) more"
      using assms \<open>line = h # rest\<close> Cons
      by (simp_all add: match_key_value_def Let_def)
    have "rest = takeWhile isword rest @ dropWhile isword rest"
      by simp
    also have "\<dots> = key @ CHR ''='' # more"
      unfolding Cons using c kv by simp
    finally have "line = CHR ''#'' # key @ CHR ''='' # more"
      using \<open>line = h # rest\<close> c by simp
    then show ?thesis
      using c kv by blast
  qed
qed

lemma parse_line_version:
  "\<not> startswith line ''#version='' \<Longrightarrow> version (parse_line line md) = version md"
proof -
  assume n: "\<not> startswith line ''#version=''"
  have "match_key_value line \<noteq> Some (''version'', v)" for v
  proof
    assume "match_key_value line = Some (''version'', v)"
    from match_key_value_Some [OF this] obtain more where "line = ''#version='' @ more"
      by auto
    with n show False by (simp add: startswith_def)
  qed
  then show ?thesis
    by (auto simp: parse_line_def split: option.splits)
qed

lemma fold_parse_line_version:
  "\<forall>line\<in>set lines. \<not> startswith line ''#version='' \<Longrightarrow>
     version (fold parse_line lines md) = version md"
  by (induction lines arbitrary: md) (auto simp: parse_line_version)

lemma build_columns_append:
  "build_columns columns md = columns @ appended_columns columns md"
  by (simp add: appended_columns_def build_columns_eq)

lemma appended_columns_subset:
  "set (appended_columns columns md)
     \<subseteq> {''comment[sdrf version]'', ''comment[sdrf template]'', ''comment[sdrf annotation tool]''}"
  by (auto simp: appended_columns_def build_columns_eq)

lemma appended_columns_chars:
  "a \<in> set (appended_columns columns md) \<Longrightarrow> TAB \<notin> set a \<and> NL \<notin> set a"
  using appended_columns_subset [of columns md] by (auto simp: TAB_def NL_def)

lemma new_header_line_eq:
  "join_str [TAB] (build_columns (split_str TAB hl) md)
     = hl @ concat (map (\<lambda>y. [TAB] @ y) (appended_columns (split_str TAB hl) md))"
  by (simp add: build_columns_append join_str_append join_split_str)

lemma new_header_line_no_NL:
  assumes "NL \<notin> set hl"
  shows "NL \<notin> set (join_str [TAB] (build_columns (split_str TAB hl) md))"
proof -
  have "TAB \<noteq> NL" by (simp add: TAB_def NL_def)
  then show ?thesis
    unfolding new_header_line_eq
    using assms appended_columns_chars [of _ "split_str TAB hl" md] by auto
qed

lemma new_header_line_candidate:
  assumes "strip hl \<noteq> []" and "\<not> startswith hl ''#''"
  shows "strip (join_str [TAB] (build_columns (split_str TAB hl) md)) \<noteq> []
     \<and> \<not> startswith (join_str [TAB] (build_columns (split_str TAB hl) md)) ''#''"
proof -
  from assms(1) obtain h rest where "hl = h # rest" by (cases hl) (auto simp: strip_def)
  with assms(2) have "\<not> startswith (hl @ more) ''#''" for more
    by (simp add: startswith_def)
  moreover from assms(1) have "strip (hl @ more) \<noteq> []" for more
    by (auto simp: strip_nonempty_iff)
  ultimately show ?thesis by (simp add: new_header_line_eq)
qed

lemma split_write_lines:
  assumes "NL \<notin> set nh" and "\<forall>l\<in>set ls. NL \<notin> set l"
  shows "split_str NL (write_lines nh ls) = nh # filter (\<lambda>l. strip l \<noteq> []) ls @ [[]]"
proof -
  have "write_lines nh ls = concat (map (\<lambda>l. l @ [NL]) (nh # filter (\<lambda>l. strip l \<noteq> []) ls))"
    by (simp add: write_lines_def)
  moreover have "\<forall>l\<in>set (nh # filter (\<lambda>l. strip l \<noteq> []) ls). NL \<notin> set l"
    using assms by simp
  ultimately show ?thesis
    using split_str_written [of "nh # filter (\<lambda>l. strip l \<noteq> []) ls" NL] by simp
qed

lemma rewrite_Inr:
  "rewrite content = Inr out \<longleftrightarrow>
     (\<exists>i hl. locate_header_row (split_str NL content) = Some (i, hl)
        \<and> out = write_lines (join_str [TAB] (build_columns (split_str TAB hl) (parse_headers content)))
                   (drop (Suc i) (split_str NL content)))"
  by (auto simp: rewrite_def Let_def split: option.splits)

lemma locate_header_row_facts:
  assumes "locate_header_row lines = Some (i, hl)"
  shows "hl \<in> set lines" and "strip hl \<noteq> []" and "\<not> startswith hl ''#''"
  using assms find_header_row_Some [of 0 lines i hl]
  by (auto simp: locate_header_row_def)

lemma locate_header_row_head:
  "strip l \<noteq> [] \<Longrightarrow> \<not> startswith l ''#'' \<Longrightarrow> locate_header_row (l # ls) = Some (0, l)"
  by (simp add: locate_header_row_def)

lemma has_all_after:
  "list_ex (str_contains ''comment[sdrf version]'') (build_columns columns md)"
  "list_ex (str_contains ''comment[sdrf template]'') (build_columns columns md)"
  "list_ex (str_contains ''comment[sdrf annotation tool]'') (build_columns columns md)"
  by (simp_all add: build_columns_eq list_ex_iff str_contains_iff_sublist)

lemma build_columns_twice:
  "build_columns (build_columns columns md) md' = build_columns columns md"
  using has_all_after [of columns md]
  by (simp add: build_columns_eq [of "build_columns columns md" md'])

lemma split_new_header_line:
  "split_str TAB (join_str [TAB] (build_columns (split_str TAB hl) md))
     = build_columns (split_str TAB hl) md"
proof (rule split_join_str)
  show "build_columns (split_str TAB hl) md \<noteq> []"
    by (simp add: build_columns_append)
  show "\<forall>x\<in>set (build_columns (split_str TAB hl) md). TAB \<notin> set x"
    using split_str_no_sep [of _ TAB hl] appended_columns_chars [of _ "split_str TAB hl" md]
    by (auto simp: build_columns_append)
qed

lemma write_lines_filtered:
  "write_lines nh (filter (\<lambda>l. strip l \<noteq> []) ls @ [[]]) = write_lines nh ls"
  by (simp add: write_lines_def strip_def)

lemma match_key_value_comment:
  "match_key_value line = Some kv \<Longrightarrow> startswith line ''#''"
  using match_key_value_Some [of line "fst kv" "snd kv"] by (auto simp: startswith_def)

lemma parse_line_cases:
  "parse_line line md =
     (case match_key_value line of
        None \<Rightarrow> md
      | Some kv \<Rightarrow>
          (if fst kv = ''version'' then md\<lparr>version := snd kv\<rparr>
           else if fst kv = ''template'' then md\<lparr>templates := templates md @ [snd kv]\<rparr>
           else md))"
  using match_key_value_comment [of line]
  by (auto simp: parse_line_def split: option.splits)

lemma fold_parse_line_templates:
  "templates (fold parse_line lines md)
     = templates md
       @ map snd (filter (\<lambda>kv. fst kv = ''template'') (List.map_filter match_key_value lines))"
  by (induction lines arbitrary: md)
     (auto simp: parse_line_cases List.map_filter_simps split: option.splits)

lemma fold_parse_line_version_last:
  "version (fold parse_line lines md)
     = (let vs = filter (\<lambda>kv. fst kv = ''version'') (List.map_filter match_key_value lines)
        in if vs = [] then version md else snd (last vs))"
  by (induction lines arbitrary: md)
     (auto simp: parse_line_cases List.map_filter_simps Let_def split: option.splits)

lemma comment_not_blank: "startswith l ''#'' \<Longrightarrow> strip l \<noteq> []"
  by (auto simp: startswith_def strip_nonempty_iff isspace_def elim!: prefixE)

lemma filter_comment_nonblank:
  "filter (\<lambda>l. startswith l ''#'') (filter (\<lambda>l. strip l \<noteq> []) ls)
     = filter (\<lambda>l. startswith l ''#'') ls"
  by (induction ls) (auto simp: comment_not_blank)

lemma match_key_value_version_line:
  "match_key_value (''#version='' @ tail)
     = (if takeWhile (\<lambda>x. x \<noteq> NL) tail \<noteq> []
        then Some (''version'', takeWhile (\<lambda>x. x \<noteq> NL) tail) else None)"
  by (simp add: match_key_value_def isword_def)

lemma parse_line_version_line:
  assumes "startswith line ''#version=''"
  shows "templates (parse_line line md) = templates md"
proof -
  from assms obtain tail where "line = ''#version='' @ tail"
    by (auto simp: startswith_def elim: prefixE)
  then show ?thesis
    by (simp add: parse_line_cases match_key_value_version_line del: append.simps)
qed

lemma parse_line_templates_cong:
  "templates md = templates md' \<Longrightarrow>
     templates (parse_line line md) = templates (parse_line line md')"
  by (simp add: parse_line_cases split: option.splits)

lemma fold_parse_line_templates_rel:
  assumes "list_all2 (\<lambda>a b. a = b \<or> (startswith a ''#version='' \<and> startswith b ''#version='')) xs ys"
    and "templates md = templates md'"
  shows "templates (fold parse_line xs md) = templates (fold parse_line ys md')"
  using assms
proof (induction xs ys arbitrary: md md' rule: list_all2_induct)
  case Nil
  then show ?case by simp
next
  case (Cons x xs y ys)
  have "templates (parse_line x md) = templates (parse_line y md')"
    using Cons.hyps(1) Cons.prems
    by (auto simp: parse_line_version_line intro: parse_line_templates_cong)
  then show ?case
    using Cons.IH by simp
qed

lemma build_columns_templates_only:
  "templates md = templates md' \<Longrightarrow> build_columns columns md = build_columns columns md'"
  by (simp add: build_columns_eq)

lemma find_header_row_skip:
  "\<forall>l\<in>set pre. \<not> (strip l \<noteq> [] \<and> \<not> startswith l ''#'') \<Longrightarrow>
     find_header_row i (pre @ rest) = find_header_row (i + length pre) rest"
  by (induction pre arbitrary: i) auto

lemma find_header_row_index:
  "find_header_row i lines = Some (k, l) \<Longrightarrow> i \<le> k"
  using find_header_row_Some [of i lines k l] by auto

lemma rewrite_cases:
  "rewrite content =
     (case locate_header_row (split_str NL content) of
        None \<Rightarrow> Inl NoHeaderRow
      | Some (i, hl) \<Rightarrow>
          Inr (write_lines
                 (join_str [TAB] (build_columns (split_str TAB hl) (parse_headers content)))
                 (drop (Suc i) (split_str NL content))))"
  by (simp add: rewrite_def Let_def split: option.splits)

section \<open>The claims\<close>

text \<open>
  C1: on the scenario input the content transformation gives exactly the expected
  output, and \<open>update_tsv_file\<close> on a file holding the input returns \<open>True\<close> and leaves the
  expected output in the file.
\<close>

theorem scenario_rewrite:
  "rewrite scenario_input = Inr scenario_output
   \<and> update_tsv_file \<lparr>files = [''plants.sdrf.tsv'' \<mapsto> scenario_input], stdout = [], opened_w = []\<rparr>
        ''plants.sdrf.tsv'' ''plants''
     = Inr (True, \<lparr>files = [''plants.sdrf.tsv'' \<mapsto> scenario_output], stdout = [],
                   opened_w = [''plants.sdrf.tsv'']\<rparr>)"
proof -
  have r: "rewrite scenario_input = Inr scenario_output"
    by (simp add: scenario_input_def scenario_output_def eval_defs)
  show ?thesis
    by (simp add: r update_tsv_file_def)
qed

text \<open>
  C2: when every line of the file is empty or starts with \<open>#\<close>, the content
  transformation fails with \<open>NoHeaderRow\<close>; \<open>update_tsv_file\<close> returns \<open>False\<close>, prints the
  error with the path, opens nothing for writing and leaves every file as it was.
\<close>

theorem no_header_row:
  assumes "files w tsv_path = Some content"
    and "\<forall>line\<in>set (split_str NL content). line = [] \<or> startswith line ''#''"
  shows "rewrite content = Inl NoHeaderRow
     \<and> update_tsv_file w tsv_path template_name
        = Inr (False, w\<lparr>stdout := stdout w @ [''  ERROR: No header row found in '' @ tsv_path]\<rparr>)
     \<and> (\<forall>r w'. update_tsv_file w tsv_path template_name = Inr (r, w') \<longrightarrow>
           r = False \<and> files w' = files w \<and> opened_w w' = opened_w w)"
proof -
  have "\<forall>l\<in>set (split_str NL content). \<not> (strip l \<noteq> [] \<and> \<not> startswith l ''#'')"
    using assms(2) by (auto simp: strip_def)
  then have "locate_header_row (split_str NL content) = None"
    by (simp add: locate_header_row_def find_header_row_None)
  then have r: "rewrite content = Inl NoHeaderRow"
    by (simp add: rewrite_def)
  show ?thesis
    using assms(1) by (simp add: r update_tsv_file_def)
qed

theorem no_header_row_witness:
  "rewrite (''#version=1.0.0'' @ [NL] @ [NL] @ ''#note'') = Inl NoHeaderRow
   \<and> update_tsv_file \<lparr>files = [''t.sdrf.tsv'' \<mapsto> ''#version=1.0.0'' @ [NL] @ [NL] @ ''#note''],
                       stdout = [], opened_w = []\<rparr> ''t.sdrf.tsv'' ''t''
     = Inr (False, \<lparr>files = [''t.sdrf.tsv'' \<mapsto> ''#version=1.0.0'' @ [NL] @ [NL] @ ''#note''],
                    stdout = [''  ERROR: No header row found in t.sdrf.tsv''], opened_w = []\<rparr>)"
  using no_header_row [of "\<lparr>files = [''t.sdrf.tsv'' \<mapsto> ''#version=1.0.0'' @ [NL] @ [NL] @ ''#note''],
                       stdout = [], opened_w = []\<rparr>" "''t.sdrf.tsv''"
        "''#version=1.0.0'' @ [NL] @ [NL] @ ''#note''" "''t''"]
  by (simp add: startswith_def NL_def)

text \<open>
  C3: as stated (no trimming, so that a line of whitespace alone is the header row)
  the claim fails: on the lines \<open>" "\<close> and \<open>"source name"\<close> the search worded by the specification
  returns line 0, the search of the source returns line 1.
\<close>

theorem header_row_untrimmed_counterexample:
  "spec_locateHeaderRow (split_str NL ('' '' @ [NL] @ ''source name'')) = Some (0, '' '')
   \<and> locate_header_row (split_str NL ('' '' @ [NL] @ ''source name'')) = Some (1, ''source name'')"
  by (simp add: spec_locateHeaderRow_def eval_defs)

text \<open>
  C3, amended: the search returns the zero-based index and the content of the first
  line that has a character other than whitespace and does not start with \<open>#\<close> (the test for
  \<open>#\<close> is on the untrimmed line), and finds nothing exactly when no line is such a line.
\<close>

theorem locate_header_row_first:
  "(locate_header_row lines = Some (i, l) \<longleftrightarrow>
      i < length lines \<and> lines ! i = l
      \<and> (\<exists>c\<in>set l. \<not> isspace c) \<and> \<not> startswith l ''#''
      \<and> (\<forall>j<i. \<not> ((\<exists>c\<in>set (lines ! j). \<not> isspace c) \<and> \<not> startswith (lines ! j) ''#'')))
   \<and> (locate_header_row lines = None \<longleftrightarrow>
      (\<forall>x\<in>set lines. \<not> ((\<exists>c\<in>set x. \<not> isspace c) \<and> \<not> startswith x ''#'')))"
proof (intro conjI)
  show "locate_header_row lines = None \<longleftrightarrow>
      (\<forall>x\<in>set lines. \<not> ((\<exists>c\<in>set x. \<not> isspace c) \<and> \<not> startswith x ''#''))"
    by (simp add: locate_header_row_def find_header_row_None strip_nonempty_iff)
next
  let ?ok = "\<lambda>x. (\<exists>c\<in>set x. \<not> isspace c) \<and> \<not> startswith x ''#''"
  have split: "locate_header_row lines = Some (i, l) \<longleftrightarrow>
     (\<exists>pre post. lines = pre @ l # post \<and> i = length pre \<and> ?ok l \<and> (\<forall>x\<in>set pre. \<not> ?ok x))"
    using find_header_row_Some [of 0 lines i l]
    by (simp add: locate_header_row_def strip_nonempty_iff)
  show "locate_header_row lines = Some (i, l) \<longleftrightarrow>
      i < length lines \<and> lines ! i = l \<and> (\<exists>c\<in>set l. \<not> isspace c) \<and> \<not> startswith l ''#''
      \<and> (\<forall>j<i. \<not> ?ok (lines ! j))" (is "?L \<longleftrightarrow> ?R")
  proof
    assume ?L
    then obtain pre post where h: "lines = pre @ l # post" "i = length pre" "?ok l"
      "\<forall>x\<in>set pre. \<not> ?ok x"
      using split by blast
    have "\<forall>j<i. \<not> ?ok (lines ! j)"
    proof (intro allI impI)
      fix j assume "j < i"
      then have "lines ! j = pre ! j" "pre ! j \<in> set pre"
        using h(1,2) by (simp_all add: nth_append)
      then show "\<not> ?ok (lines ! j)" using h(4) by simp
    qed
    with h show ?R by simp
  next
    assume r: ?R
    then have "lines = take i lines @ l # drop (Suc i) lines"
      by (metis id_take_nth_drop)
    moreover have "i = length (take i lines)" using r by simp
    moreover have "\<forall>x\<in>set (take i lines). \<not> ?ok x"
    proof
      fix x assume "x \<in> set (take i lines)"
      then obtain j where "j < length (take i lines)" "x = take i lines ! j"
        by (auto simp: in_set_conv_nth)
      then have "j < i" "x = lines ! j" by simp_all
      then show "\<not> ?ok x" using r by blast
    qed
    ultimately show ?L using r split by blast
  qed
qed

theorem locate_header_row_first_witness:
  "locate_header_row ['' '', ''#a'', ''h'', ''d''] = Some (2, ''h'')
   \<and> locate_header_row ['' '', ''#a''] = None"
  using locate_header_row_first [of "['' '', ''#a'', ''h'', ''d'']" 2 "''h''"]
    locate_header_row_first [of "['' '', ''#a'']" 0 "[]"]
  by (auto simp: startswith_def isspace_def dest!: less_2_cases)

text \<open>
  C4: as stated (the metadata comes only from the comment lines before the header
  row) the claim fails: two documents with the same lines up to and including the header
  row, one of them with a \<open>#version=\<close> and a \<open>#template=\<close> line after it, give different
  version and templates.
\<close>

theorem parse_headers_after_header_counterexample:
  "locate_header_row (split_str NL (''#version=1.0.0'' @ [NL] @ ''source name''))
     = Some (1, ''source name'')
   \<and> locate_header_row (split_str NL (''#version=1.0.0'' @ [NL] @ ''source name'' @ [NL]
        @ ''#version=9.9'' @ [NL] @ ''#template=late''))
     = Some (1, ''source name'')
   \<and> parse_headers (''#version=1.0.0'' @ [NL] @ ''source name'')
     = \<lparr>version = ''1.0.0'', templates = []\<rparr>
   \<and> parse_headers (''#version=1.0.0'' @ [NL] @ ''source name'' @ [NL]
        @ ''#version=9.9'' @ [NL] @ ''#template=late'')
     = \<lparr>version = ''9.9'', templates = [''late'']\<rparr>"
  by (simp add: eval_defs)

text \<open>
  C4, amended: \<open>parse_headers\<close> reads every line of the document, the lines at or after
  the header row like the ones before it: the templates are the values of all lines matching
  \<open>#template=value\<close>, in the order of the lines, and the version is the value of the last line
  matching \<open>#version=value\<close>, or \<open>v1.1.0\<close> when there is none.
\<close>

theorem parse_headers_whole_document:
  "templates (parse_headers content)
     = map snd (filter (\<lambda>kv. fst kv = ''template'')
                  (List.map_filter match_key_value (split_str NL content)))
   \<and> version (parse_headers content)
     = (let vs = filter (\<lambda>kv. fst kv = ''version'')
                   (List.map_filter match_key_value (split_str NL content))
        in if vs = [] then ''v1.1.0'' else snd (last vs))"
  by (simp add: parse_headers_def fold_parse_line_templates fold_parse_line_version_last Let_def)

theorem parse_headers_whole_document_witness:
  "parse_headers (''source name'' @ [NL] @ ''#version=9.9'' @ [NL] @ ''#template=late'')
     = \<lparr>version = ''9.9'', templates = [''late'']\<rparr>"
proof -
  have "List.map_filter match_key_value
          (split_str NL (''source name'' @ [NL] @ ''#version=9.9'' @ [NL] @ ''#template=late''))
        = [(''version'', ''9.9''), (''template'', ''late'')]"
    by (simp add: List.map_filter_simps match_key_value_def isword_def NL_def)
  then show ?thesis
    using parse_headers_whole_document
      [of "''source name'' @ [NL] @ ''#version=9.9'' @ [NL] @ ''#template=late''"]
    by (cases "parse_headers (''source name'' @ [NL] @ ''#version=9.9'' @ [NL] @ ''#template=late'')")
       simp
qed

text \<open>
  C5: as stated (no line of the output starts with \<open>#\<close>) the claim fails: a line
  starting with \<open>#\<close> after the header row is a data line and is written as it is.
\<close>

theorem comment_after_header_counterexample:
  "rewrite (''#version=1.0.0'' @ [NL] @ ''source name'' @ [NL] @ ''#note'' @ [NL] @ ''sample1'')
     = Inr (''source name'' @ [TAB] @ ''comment[sdrf version]'' @ [TAB] @ ''comment[sdrf template]''
            @ [TAB] @ ''comment[sdrf annotation tool]'' @ [NL] @ ''#note'' @ [NL] @ ''sample1'' @ [NL])
   \<and> split_str NL (''source name'' @ [TAB] @ ''comment[sdrf version]'' @ [TAB] @ ''comment[sdrf template]''
            @ [TAB] @ ''comment[sdrf annotation tool]'' @ [NL] @ ''#note'' @ [NL] @ ''sample1'' @ [NL]) ! 1
     = ''#note''
   \<and> startswith ''#note'' ''#''"
  by (simp add: eval_defs)

text \<open>
  C5, amended: when the transformation succeeds the output does not begin with \<open>#\<close>,
  and the lines of the output that start with \<open>#\<close> are the lines of the input after the header
  row that start with \<open>#\<close>, in the same order: the comment lines before the header row are
  gone, and the output has no comment line exactly when the input has none after its header
  row.
\<close>

theorem comment_lines_of_output:
  assumes "rewrite content = Inr out"
  shows "\<exists>i hl. locate_header_row (split_str NL content) = Some (i, hl)
           \<and> \<not> startswith out ''#''
           \<and> filter (\<lambda>l. startswith l ''#'') (split_str NL out)
               = filter (\<lambda>l. startswith l ''#'') (drop (Suc i) (split_str NL content))
           \<and> ((\<forall>l\<in>set (split_str NL out). \<not> startswith l ''#'')
                \<longleftrightarrow> (\<forall>l\<in>set (drop (Suc i) (split_str NL content)). \<not> startswith l ''#''))"
proof -
  from assms obtain i hl where h: "locate_header_row (split_str NL content) = Some (i, hl)"
    and out: "out = write_lines (join_str [TAB] (build_columns (split_str TAB hl) (parse_headers content)))
                   (drop (Suc i) (split_str NL content))"
    by (auto simp: rewrite_Inr)
  define nh where "nh = join_str [TAB] (build_columns (split_str TAB hl) (parse_headers content))"
  define data where "data = drop (Suc i) (split_str NL content)"
  have "hl \<in> set (split_str NL content)"
    using h by (rule locate_header_row_facts)
  then have "NL \<notin> set hl"
    by (rule split_str_no_sep)
  then have nh_NL: "NL \<notin> set nh"
    unfolding nh_def by (rule new_header_line_no_NL)
  have data_NL: "\<forall>l\<in>set data. NL \<notin> set l"
    unfolding data_def using split_str_no_sep [of _ NL content] by (auto dest: in_set_dropD)
  have lines: "split_str NL out = nh # filter (\<lambda>l. strip l \<noteq> []) data @ [[]]"
    unfolding out nh_def [symmetric] data_def [symmetric]
    using nh_NL data_NL by (rule split_write_lines)
  have cand: "strip nh \<noteq> [] \<and> \<not> startswith nh ''#''"
    unfolding nh_def
    using locate_header_row_facts(2,3) [OF h] by (rule new_header_line_candidate)
  then have "\<not> startswith (nh @ more) ''#''" for more
    by (cases nh) (auto simp: startswith_def strip_def)
  then have "\<not> startswith out ''#''"
    by (simp add: out write_lines_def flip: nh_def)
  moreover have "filter (\<lambda>l. startswith l ''#'') (split_str NL out)
               = filter (\<lambda>l. startswith l ''#'') data"
  proof -
    have "\<not> startswith [] ''#''"
      by (simp add: startswith_def)
    with cand have "filter (\<lambda>l. startswith l ''#'') (split_str NL out)
        = filter (\<lambda>l. startswith l ''#'') (filter (\<lambda>l. strip l \<noteq> []) data)"
      unfolding lines by (simp del: filter_filter)
    then show ?thesis
      by (simp only: filter_comment_nonblank)
  qed
  ultimately have f: "\<not> startswith out ''#''"
    "filter (\<lambda>l. startswith l ''#'') (split_str NL out)
       = filter (\<lambda>l. startswith l ''#'') (drop (Suc i) (split_str NL content))"
    by (simp_all add: data_def)
  have "(\<forall>l\<in>set (split_str NL out). \<not> startswith l ''#'')
          \<longleftrightarrow> filter (\<lambda>l. startswith l ''#'') (split_str NL out) = []"
    by (simp add: filter_empty_conv)
  also have "\<dots> \<longleftrightarrow> (\<forall>l\<in>set (drop (Suc i) (split_str NL content)). \<not> startswith l ''#'')"
    unfolding f(2) by (simp add: filter_empty_conv)
  finally show ?thesis
    using h f by blast
qed

theorem comment_lines_of_output_witness:
  "filter (\<lambda>l. startswith l ''#'') (split_str NL scenario_output) = []"
proof -
  have r: "rewrite scenario_input = Inr scenario_output"
    by (simp add: scenario_input_def scenario_output_def eval_defs)
  have l: "locate_header_row (split_str NL scenario_input)
          = Some (2, ''source name'' @ [TAB] @ ''characteristics[organism]'')"
    by (simp add: scenario_input_def locate_header_row_def startswith_def strip_def isspace_def
        TAB_def NL_def)
  have d: "drop (Suc 2) (split_str NL scenario_input) = [''sample1'' @ [TAB] @ ''Arabidopsis'', [], []]"
    by (simp add: scenario_input_def TAB_def NL_def)
  show ?thesis
    using comment_lines_of_output [OF r] l d by (simp add: startswith_def TAB_def)
qed

text \<open>
  C6: \<open>parse_headers\<close> on the four lines of the example returns version
  \<open>2.3.0\<close> and the templates \<open>human\<close>, \<open>cell-lines\<close> in that order, the same as without the
  \<open>#bogus=\<close> line; and on a document with no line starting with \<open>#version=\<close> the version
  is the default \<open>v1.1.0\<close>.
\<close>

theorem parse_headers_example:
  "parse_headers (''#version=2.3.0'' @ [NL] @ ''#template=human'' @ [NL]
                  @ ''#template=cell-lines'' @ [NL] @ ''#bogus=xyz'')
     = \<lparr>version = ''2.3.0'', templates = [''human'', ''cell-lines'']\<rparr>
   \<and> parse_headers (''#version=2.3.0'' @ [NL] @ ''#template=human'' @ [NL]
                  @ ''#template=cell-lines'')
     = \<lparr>version = ''2.3.0'', templates = [''human'', ''cell-lines'']\<rparr>
   \<and> ((\<forall>line\<in>set (split_str NL content). \<not> startswith line ''#version='')
        \<longrightarrow> version (parse_headers content) = ''v1.1.0'')"
proof (intro conjI impI)
  show "parse_headers (''#version=2.3.0'' @ [NL] @ ''#template=human'' @ [NL]
                  @ ''#template=cell-lines'' @ [NL] @ ''#bogus=xyz'')
     = \<lparr>version = ''2.3.0'', templates = [''human'', ''cell-lines'']\<rparr>"
    by (simp add: eval_defs)
  show "parse_headers (''#version=2.3.0'' @ [NL] @ ''#template=human'' @ [NL]
                  @ ''#template=cell-lines'')
     = \<lparr>version = ''2.3.0'', templates = [''human'', ''cell-lines'']\<rparr>"
    by (simp add: eval_defs)
  assume "\<forall>line\<in>set (split_str NL content). \<not> startswith line ''#version=''"
  then show "version (parse_headers content) = ''v1.1.0''"
    by (simp add: parse_headers_def fold_parse_line_version)
qed

theorem parse_headers_example_witness:
  "version (parse_headers (''#template=human'' @ [NL] @ ''source name'' @ [NL] @ ''#version'')) = ''v1.1.0''"
  using parse_headers_example [of "''#template=human'' @ [NL] @ ''source name'' @ [NL] @ ''#version''"]
  by (simp add: startswith_def NL_def)

text \<open>
  C7: as stated the claim fails at its example: the column
  \<open>comment[sdrf version range]\<close> does not contain \<open>comment[sdrf version]\<close> (the closing bracket
  is part of the substring), so the version column is appended.
\<close>

theorem version_range_counterexample:
  "build_columns [''source name'', ''comment[sdrf version range]'']
      \<lparr>version = ''v1.1.0'', templates = [''human'']\<rparr>
     = [''source name'', ''comment[sdrf version range]'', ''comment[sdrf version]'',
        ''comment[sdrf template]'', ''comment[sdrf annotation tool]'']"
  by (simp add: build_columns_def)

text \<open>
  C7, amended: the existing columns are kept in front, and each metadata column
  is among the appended columns exactly when no existing column contains its name as a
  substring (a contiguous run of characters, the brackets included); equality is not needed.
\<close>

theorem presence_check_substring:
  "prefix columns (build_columns columns md)
   \<and> (''comment[sdrf version]'' \<in> set (drop (length columns) (build_columns columns md))
        \<longleftrightarrow> \<not> (\<exists>col\<in>set columns. sublist ''comment[sdrf version]'' col))
   \<and> (''comment[sdrf template]'' \<in> set (drop (length columns) (build_columns columns md))
        \<longleftrightarrow> \<not> (\<exists>col\<in>set columns. sublist ''comment[sdrf template]'' col))
   \<and> (''comment[sdrf annotation tool]'' \<in> set (drop (length columns) (build_columns columns md))
        \<longleftrightarrow> \<not> (\<exists>col\<in>set columns. sublist ''comment[sdrf annotation tool]'' col))"
  by (simp add: build_columns_eq list_ex_iff str_contains_iff_sublist)

theorem presence_check_substring_witness:
  "build_columns [''source name'', ''old comment[sdrf version] column'']
      \<lparr>version = ''v1.1.0'', templates = [''human'']\<rparr>
     = [''source name'', ''old comment[sdrf version] column'', ''comment[sdrf template]'',
        ''comment[sdrf annotation tool]'']"
proof -
  have e: "build_columns [''source name'', ''old comment[sdrf version] column'']
      \<lparr>version = ''v1.1.0'', templates = [''human'']\<rparr>
     = [''source name'', ''old comment[sdrf version] column'', ''comment[sdrf template]'',
        ''comment[sdrf annotation tool]'']"
    by (simp add: build_columns_def)
  have "prefix [''source name'', ''old comment[sdrf version] column'']
          (build_columns [''source name'', ''old comment[sdrf version] column'']
             \<lparr>version = ''v1.1.0'', templates = [''human'']\<rparr>)"
    using presence_check_substring [of "[''source name'', ''old comment[sdrf version] column'']"
       "\<lparr>version = ''v1.1.0'', templates = [''human'']\<rparr>"]
    by blast
  with e show ?thesis by simp
qed

text \<open>
  C8: when no existing column contains \<open>comment[sdrf template]\<close>, the result is
  the existing columns, then the version column (unless present), then one template column
  for each entry of the templates (one when there is none), then the annotation tool column
  (unless present); when some column contains it, the result is the existing columns, then
  the version column, then the annotation tool column (each unless present). So what is
  appended always stands after the existing columns, in the order version, templates, tool.
\<close>

theorem template_columns_order:
  "(\<not> (\<exists>col\<in>set columns. sublist ''comment[sdrf template]'' col) \<longrightarrow>
      build_columns columns md =
        columns
        @ (if \<exists>col\<in>set columns. sublist ''comment[sdrf version]'' col then []
           else [''comment[sdrf version]''])
        @ replicate (if templates md = [] then 1 else length (templates md))
            ''comment[sdrf template]''
        @ (if \<exists>col\<in>set columns. sublist ''comment[sdrf annotation tool]'' col then []
           else [''comment[sdrf annotation tool]'']))
   \<and> ((\<exists>col\<in>set columns. sublist ''comment[sdrf template]'' col) \<longrightarrow>
      build_columns columns md =
        columns
        @ (if \<exists>col\<in>set columns. sublist ''comment[sdrf version]'' col then []
           else [''comment[sdrf version]''])
        @ (if \<exists>col\<in>set columns. sublist ''comment[sdrf annotation tool]'' col then []
           else [''comment[sdrf annotation tool]'']))"
  by (simp add: build_columns_eq list_ex_iff str_contains_iff_sublist)

theorem template_columns_order_witness:
  "build_columns [''source name'', ''comment[sdrf version]'']
      \<lparr>version = ''v1.1.0'', templates = [''human'', ''cell-lines'']\<rparr>
     = [''source name'', ''comment[sdrf version]'', ''comment[sdrf template]'',
        ''comment[sdrf template]'', ''comment[sdrf annotation tool]'']
   \<and> build_columns [''source name''] \<lparr>version = ''v1.1.0'', templates = []\<rparr>
     = [''source name'', ''comment[sdrf version]'', ''comment[sdrf template]'',
        ''comment[sdrf annotation tool]'']"
proof -
  have n: "\<not> sublist ''comment[sdrf template]'' ''source name''"
    "\<not> sublist ''comment[sdrf template]'' ''comment[sdrf version]''"
    "\<not> sublist ''comment[sdrf version]'' ''source name''"
    "\<not> sublist ''comment[sdrf annotation tool]'' ''source name''"
    "\<not> sublist ''comment[sdrf annotation tool]'' ''comment[sdrf version]''"
    by (simp_all flip: str_contains_iff_sublist)
  have y: "sublist ''comment[sdrf version]'' ''comment[sdrf version]''"
    by simp
  show ?thesis
    using template_columns_order [of "[''source name'', ''comment[sdrf version]'']"
        "\<lparr>version = ''v1.1.0'', templates = [''human'', ''cell-lines'']\<rparr>"]
      template_columns_order [of "[''source name'']" "\<lparr>version = ''v1.1.0'', templates = []\<rparr>"]
      n y
    by (simp add: numeral_2_eq_2)
qed

text \<open>
  C9: on a document with a header row the content transformation succeeds, and
  applied to its own output it returns that output again.
\<close>

theorem rewrite_idempotent:
  assumes "locate_header_row (split_str NL content) = Some (i, hl)"
  shows "\<exists>out. rewrite content = Inr out \<and> rewrite out = Inr out"
proof -
  define md where "md = parse_headers content"
  define nh where "nh = join_str [TAB] (build_columns (split_str TAB hl) md)"
  define data where "data = drop (Suc i) (split_str NL content)"
  define out where "out = write_lines nh data"
  have first: "rewrite content = Inr out"
    using assms by (simp add: rewrite_Inr out_def nh_def data_def md_def)
  have "hl \<in> set (split_str NL content)"
    using assms by (rule locate_header_row_facts)
  then have "NL \<notin> set hl"
    by (rule split_str_no_sep)
  then have nh_NL: "NL \<notin> set nh"
    unfolding nh_def by (rule new_header_line_no_NL)
  have data_NL: "\<forall>l\<in>set data. NL \<notin> set l"
    unfolding data_def using split_str_no_sep [of _ NL content] by (auto dest: in_set_dropD)
  have lines: "split_str NL out = nh # filter (\<lambda>l. strip l \<noteq> []) data @ [[]]"
    unfolding out_def using nh_NL data_NL by (rule split_write_lines)
  have "strip nh \<noteq> [] \<and> \<not> startswith nh ''#''"
    unfolding nh_def
    using locate_header_row_facts(2,3) [OF assms] by (rule new_header_line_candidate)
  then have hdr: "locate_header_row (split_str NL out) = Some (0, nh)"
    by (simp add: lines locate_header_row_head)
  have cols: "build_columns (split_str TAB nh) (parse_headers out) = build_columns (split_str TAB hl) md"
    by (simp add: nh_def split_new_header_line build_columns_twice)
  have "rewrite out = Inr (write_lines nh (filter (\<lambda>l. strip l \<noteq> []) data @ [[]]))"
    using hdr by (simp add: rewrite_Inr cols lines) (simp add: nh_def)
  then have "rewrite out = Inr out"
    by (simp add: write_lines_filtered out_def)
  with first show ?thesis by blast
qed

theorem rewrite_idempotent_witness:
  "rewrite scenario_output = Inr scenario_output"
proof -
  have "locate_header_row (split_str NL scenario_input)
          = Some (2, ''source name'' @ [TAB] @ ''characteristics[organism]'')"
    by (simp add: scenario_input_def locate_header_row_def startswith_def strip_def isspace_def
        TAB_def NL_def)
  from rewrite_idempotent [OF this]
  obtain out where "rewrite scenario_input = Inr out" "rewrite out = Inr out" by blast
  moreover have "rewrite scenario_input = Inr scenario_output"
    by (simp add: scenario_input_def scenario_output_def eval_defs)
  ultimately show ?thesis by simp
qed

text \<open>
  C10: as stated (any two documents that differ only in the values of their
  \<open>#version=\<close> lines) the claim fails when such a line stands after the header row: it is a
  data line, written as it is, so the two outputs differ in it.
\<close>

theorem version_after_header_counterexample:
  "rewrite (''source name'' @ [NL] @ ''#version=1.0.0'')
     = Inr (''source name'' @ [TAB] @ ''comment[sdrf version]'' @ [TAB] @ ''comment[sdrf template]''
            @ [TAB] @ ''comment[sdrf annotation tool]'' @ [NL] @ ''#version=1.0.0'' @ [NL])
   \<and> rewrite (''source name'' @ [NL] @ ''#version=2.0.0'')
     = Inr (''source name'' @ [TAB] @ ''comment[sdrf version]'' @ [TAB] @ ''comment[sdrf template]''
            @ [TAB] @ ''comment[sdrf annotation tool]'' @ [NL] @ ''#version=2.0.0'' @ [NL])
   \<and> rewrite (''source name'' @ [NL] @ ''#version=1.0.0'')
     \<noteq> rewrite (''source name'' @ [NL] @ ''#version=2.0.0'')"
  by (simp add: eval_defs)

text \<open>
  C10, amended: two documents that differ only in lines starting with \<open>#version=\<close>
  that stand before the header row have the same result: the lines \<open>pre1\<close> and \<open>pre2\<close> hold no
  header row and agree line by line or are both \<open>#version=\<close> lines, and the lines after them
  are the same.
\<close>

theorem rewrite_version_independent:
  assumes "split_str NL content1 = pre1 @ rest"
    and "split_str NL content2 = pre2 @ rest"
    and "list_all2 (\<lambda>a b. a = b \<or> (startswith a ''#version='' \<and> startswith b ''#version='')) pre1 pre2"
    and "\<forall>l\<in>set pre1. \<not> (strip l \<noteq> [] \<and> \<not> startswith l ''#'')"
  shows "rewrite content1 = rewrite content2"
proof -
  have len: "length pre1 = length pre2"
    using assms(3) by (rule list_all2_lengthD)
  have pre2: "\<forall>l\<in>set pre2. \<not> (strip l \<noteq> [] \<and> \<not> startswith l ''#'')"
  proof
    fix b assume "b \<in> set pre2"
    then obtain j where j: "j < length pre2" "b = pre2 ! j"
      by (auto simp: in_set_conv_nth)
    define a where "a = pre1 ! j"
    have "a \<in> set pre1"
      using j(1) len by (simp add: a_def)
    moreover have "a = b \<or> (startswith a ''#version='' \<and> startswith b ''#version='')"
      using assms(3) j len by (simp add: a_def list_all2_conv_all_nth)
    ultimately show "\<not> (strip b \<noteq> [] \<and> \<not> startswith b ''#'')"
      using assms(4) by (auto simp: startswith_def elim!: prefixE)
  qed
  have "list_all2 (\<lambda>a b. a = b \<or> (startswith a ''#version='' \<and> startswith b ''#version=''))
          (pre1 @ rest) (pre2 @ rest)"
    using assms(3) by (simp add: list_all2_appendI list_all2_same)
  then have "templates (parse_headers content1) = templates (parse_headers content2)"
    unfolding parse_headers_def assms(1,2)
    by (rule fold_parse_line_templates_rel) simp
  then have cols: "build_columns columns (parse_headers content1)
                     = build_columns columns (parse_headers content2)" for columns
    by (rule build_columns_templates_only)
  have loc1: "locate_header_row (split_str NL content1) = find_header_row (length pre1) rest"
    using find_header_row_skip [OF assms(4), of 0 rest]
    by (simp add: locate_header_row_def assms(1))
  have loc2: "locate_header_row (split_str NL content2) = find_header_row (length pre1) rest"
    using find_header_row_skip [OF pre2, of 0 rest]
    by (simp add: locate_header_row_def assms(2) len)
  show ?thesis
  proof (cases "find_header_row (length pre1) rest")
    case None
    then show ?thesis
      by (simp add: rewrite_cases loc1 loc2)
  next
    case (Some r)
    obtain k hl where r: "r = (k, hl)" by (cases r)
    have "length pre1 \<le> k"
      using Some r by (auto dest: find_header_row_index)
    then have "drop (Suc k) (split_str NL content1) = drop (Suc k) (split_str NL content2)"
      using len by (simp add: assms(1,2))
    then show ?thesis
      using Some r by (simp add: rewrite_cases loc1 loc2 cols)
  qed
qed

theorem rewrite_version_independent_witness:
  "rewrite (''#version=1.0.0'' @ [NL] @ ''#template=plants'' @ [NL] @ ''source name'' @ [NL] @ ''s1'')
     = rewrite (''#version=9'' @ [NL] @ ''#template=plants'' @ [NL] @ ''source name'' @ [NL] @ ''s1'')"
proof -
  have R: "list_all2 (\<lambda>a b. a = b \<or> (startswith a ''#version='' \<and> startswith b ''#version=''))
        [''#version=1.0.0''] [''#version=9'']"
    by (simp add: startswith_def)
  have B: "\<forall>l\<in>set [''#version=1.0.0'']. \<not> (strip l \<noteq> [] \<and> \<not> startswith l ''#'')"
    by (simp add: startswith_def)
  have s1: "split_str NL (''#version=1.0.0'' @ [NL] @ ''#template=plants'' @ [NL] @ ''source name'' @ [NL] @ ''s1'')
      = [''#version=1.0.0''] @ [''#template=plants'', ''source name'', ''s1'']"
    by (simp add: NL_def)
  have s2: "split_str NL (''#version=9'' @ [NL] @ ''#template=plants'' @ [NL] @ ''source name'' @ [NL] @ ''s1'')
      = [''#version=9''] @ [''#template=plants'', ''source name'', ''s1'']"
    by (simp add: NL_def)
  show ?thesis
    by (rule rewrite_version_independent [OF s1 s2 R B])
qed

end
